theory Spec2Isabelle
  imports Main "HOL-Library.Char_ord" "HOL-Library.List_Lexorder"
begin

section \<open>Constants of the API service (services/constants.js)\<close>

text \<open>
  \<open>API_CONFIG\<close>, \<open>HTTP_STATUS\<close>, \<open>ERROR_TYPES\<close>, \<open>CACHE_CONFIG\<close> and \<open>SEARCH_CONFIG\<close>.
  Durations are milliseconds.
\<close>

definition RETRY_ATTEMPTS :: nat where "RETRY_ATTEMPTS = 3"
definition RETRY_DELAY :: nat where "RETRY_DELAY = 1000"

definition BAD_REQUEST :: nat where "BAD_REQUEST = 400"
definition HTTP_NOT_FOUND :: nat where "HTTP_NOT_FOUND = 404"
definition TOO_MANY_REQUESTS :: nat where "TOO_MANY_REQUESTS = 429"
definition INTERNAL_SERVER_ERROR :: nat where "INTERNAL_SERVER_ERROR = 500"
definition BAD_GATEWAY :: nat where "BAD_GATEWAY = 502"
definition SERVICE_UNAVAILABLE :: nat where "SERVICE_UNAVAILABLE = 503"
definition GATEWAY_TIMEOUT :: nat where "GATEWAY_TIMEOUT = 504"

datatype error_type =
    NETWORK_ERROR | TIMEOUT_ERROR | API_ERROR | VALIDATION_ERROR
  | NOT_FOUND | RATE_LIMIT | SERVER_ERROR | UNKNOWN_ERROR

definition DEFAULT_TTL :: int where "DEFAULT_TTL = 5 * 60 * 1000"

definition MIN_QUERY_LENGTH :: nat where "MIN_QUERY_LENGTH = 2"
definition MAX_QUERY_LENGTH :: nat where "MAX_QUERY_LENGTH = 100"
definition MAX_RESULTS :: nat where "MAX_RESULTS = 10"

section \<open>Failures as the HTTP client reports them\<close>

text \<open>
  The failure object handed to the response interceptor. \<open>ax_response\<close> is \<open>None\<close> when
  no HTTP response was received (connection refused, DNS failure, timeout); \<open>ax_code\<close> is
  the client's own code for the failure (\<open>ECONNABORTED\<close> for an exceeded timeout).
  \<open>resp_data\<close> is \<open>None\<close> for a null or missing body; inside a body a missing field is
  \<open>None\<close>.
\<close>

record error_body =
  body_message :: "string option"
  body_errors :: "string list option"

record http_response =
  resp_status :: nat
  resp_data :: "error_body option"
  resp_headers :: "string \<rightharpoonup> string"

record axios_error =
  ax_code :: string
  ax_message :: string
  ax_response :: "http_response option"

text \<open>The error record built by \<open>transformError\<close>; a field the branch does not set is \<open>None\<close>.\<close>

record error_record =
  err_type :: error_type
  err_message :: string
  err_errors :: "string list option"
  err_retryAfter :: "string option"
  err_originalError :: axios_error

text \<open>
  What a request can throw: a classified record, any other error object (it has neither
  \<open>type\<close> nor \<open>originalError\<close>), or the value \<open>undefined\<close>.
\<close>

datatype thrown = Classified error_record | JsError string | Undefined

section \<open>Small pieces of JavaScript\<close>

text \<open>\<open>s || d\<close> on an optional string: a missing or empty string is falsy.\<close>

definition str_or :: "string option \<Rightarrow> string \<Rightarrow> string" where
  "str_or s d = (case s of None \<Rightarrow> d | Some m \<Rightarrow> if m = [] then d else m)"

text \<open>\<open>xs || []\<close> on an optional array: every array is truthy.\<close>

definition list_or :: "'a list option \<Rightarrow> 'a list \<Rightarrow> 'a list" where
  "list_or xs d = (case xs of None \<Rightarrow> d | Some ys \<Rightarrow> ys)"

text \<open>Decimal rendering of a number inside a template literal.\<close>

definition digit_char :: "nat \<Rightarrow> char" where
  "digit_char d = ''0123456789'' ! d"

fun show_nat :: "nat \<Rightarrow> string" where
  "show_nat n = (if n < 10 then [digit_char n] else show_nat (n div 10) @ [digit_char (n mod 10)])"

declare show_nat.simps [simp del]

section \<open>Error classifier: transformError\<close>

definition body_msg :: "error_body option \<Rightarrow> string option" where
  "body_msg d = (case d of None \<Rightarrow> None | Some b \<Rightarrow> body_message b)"

definition body_errs :: "error_body option \<Rightarrow> string list option" where
  "body_errs d = (case d of None \<Rightarrow> None | Some b \<Rightarrow> body_errors b)"

definition transformError :: "axios_error \<Rightarrow> error_record" where
  "transformError error =
     (case ax_response error of
        None \<Rightarrow>
          \<lparr> err_type = NETWORK_ERROR,
            err_message = ''Network error. Please check your internet connection.'',
            err_errors = None, err_retryAfter = None, err_originalError = error \<rparr>
      | Some response \<Rightarrow>
          (let status = resp_status response; data = resp_data response in
           if status = BAD_REQUEST then
             \<lparr> err_type = VALIDATION_ERROR,
               err_message = str_or (body_msg data) ''Invalid request parameters.'',
               err_errors = Some (list_or (body_errs data) []),
               err_retryAfter = None, err_originalError = error \<rparr>
           else if status = HTTP_NOT_FOUND then
             \<lparr> err_type = NOT_FOUND,
               err_message = str_or (body_msg data) ''The requested resource was not found.'',
               err_errors = None, err_retryAfter = None, err_originalError = error \<rparr>
           else if status = TOO_MANY_REQUESTS then
             \<lparr> err_type = RATE_LIMIT,
               err_message = str_or (body_msg data) ''Too many requests. Please try again later.'',
               err_errors = None,
               err_retryAfter = resp_headers response ''retry-after'',
               err_originalError = error \<rparr>
           else if status = INTERNAL_SERVER_ERROR \<or> status = BAD_GATEWAY
                   \<or> status = SERVICE_UNAVAILABLE \<or> status = GATEWAY_TIMEOUT then
             \<lparr> err_type = SERVER_ERROR,
               err_message = str_or (body_msg data) ''Server error. Please try again later.'',
               err_errors = None, err_retryAfter = None, err_originalError = error \<rparr>
           else
             \<lparr> err_type = API_ERROR,
               err_message = str_or (body_msg data)
                  (''Request failed with status '' @ show_nat status @ ''.''),
               err_errors = None, err_retryAfter = None, err_originalError = error \<rparr>))"

section \<open>Retry policy: retryRequest\<close>

text \<open>
  A request function is a step on the outside world \<open>'w\<close> (network, clock): it returns a
  response or throws. The effects of \<open>retryRequest\<close> are logged in order: each call of
  the request function and each backoff wait with its delay.
\<close>

datatype effect = Request | Sleep nat

record ('r, 'w) retry_outcome =
  ro_result :: "thrown + 'r"
  ro_effects :: "effect list"
  ro_world :: 'w

text \<open>
  The guard of the catch block. Reading \<open>error.type\<close> of \<open>undefined\<close> is itself a
  TypeError (\<open>None\<close> here); an error object without \<open>type\<close> and \<open>originalError\<close> passes
  the guard.
\<close>

definition original_status :: "error_record \<Rightarrow> nat option" where
  "original_status e = map_option resp_status (ax_response (err_originalError e))"

definition no_retry :: "thrown \<Rightarrow> bool option" where
  "no_retry error =
     (case error of
        Undefined \<Rightarrow> None
      | JsError m \<Rightarrow> Some False
      | Classified e \<Rightarrow>
          Some (err_type e = VALIDATION_ERROR \<or> err_type e = NOT_FOUND
                \<or> original_status e = Some BAD_REQUEST))"

text \<open>The guard on a classified record: the kinds and the status that end the loop.\<close>

definition terminal :: "error_record \<Rightarrow> bool" where
  "terminal e = (err_type e = VALIDATION_ERROR \<or> err_type e = NOT_FOUND
                 \<or> original_status e = Some BAD_REQUEST)"

definition backoff_delay :: "nat \<Rightarrow> nat" where
  "backoff_delay attempt = RETRY_DELAY * 2 ^ (attempt - 1)"

function retry_loop ::
  "('w \<Rightarrow> (thrown + 'r) \<times> 'w) \<Rightarrow> nat \<Rightarrow> nat \<Rightarrow> thrown \<Rightarrow> effect list \<Rightarrow> 'w
     \<Rightarrow> ('r, 'w) retry_outcome" where
  "retry_loop requestFn maxRetries attempt lastError log w =
     (if attempt \<le> maxRetries then
        (case requestFn w of
           (Inr response, w') \<Rightarrow>
             \<lparr> ro_result = Inr response, ro_effects = log @ [Request], ro_world = w' \<rparr>
         | (Inl error, w') \<Rightarrow>
             (case no_retry error of
                None \<Rightarrow>
                  \<lparr> ro_result = Inl (JsError ''TypeError''),
                    ro_effects = log @ [Request], ro_world = w' \<rparr>
              | Some True \<Rightarrow>
                  \<lparr> ro_result = Inl error, ro_effects = log @ [Request], ro_world = w' \<rparr>
              | Some False \<Rightarrow>
                  retry_loop requestFn maxRetries (attempt + 1) error
                    (if attempt < maxRetries
                     then log @ [Request, Sleep (backoff_delay attempt)]
                     else log @ [Request])
                    w'))
      else \<lparr> ro_result = Inl lastError, ro_effects = log, ro_world = w \<rparr>)"
  by pat_completeness auto
termination
  by (relation "measure (\<lambda>(requestFn, maxRetries, attempt, lastError, log, w).
                   Suc maxRetries - attempt)") auto

declare retry_loop.simps [simp del]

definition retryRequest ::
  "('w \<Rightarrow> (thrown + 'r) \<times> 'w) \<Rightarrow> nat \<Rightarrow> 'w \<Rightarrow> ('r, 'w) retry_outcome" where
  "retryRequest requestFn maxRetries w = retry_loop requestFn maxRetries 1 Undefined [] w"

section \<open>Response cache\<close>

text \<open>
  The cache is a \<open>Map\<close> from key strings to entries. \<open>Date.now()\<close> is the argument
  \<open>now\<close>. \<open>getCache\<close> returns the stored payload, or \<open>None\<close> for \<open>null\<close>, together
  with the cache it leaves behind.
\<close>

record 'v cache_entry =
  ce_data :: 'v
  ce_timestamp :: int
  ce_ttl :: int

type_synonym 'v cache = "string \<rightharpoonup> 'v cache_entry"

definition isValidCacheEntry :: "int \<Rightarrow> 'v cache_entry option \<Rightarrow> int \<Rightarrow> bool" where
  "isValidCacheEntry now entry ttl =
     (case entry of None \<Rightarrow> False | Some e \<Rightarrow> now - ce_timestamp e < ttl)"

definition setCache :: "int \<Rightarrow> string \<Rightarrow> 'v \<Rightarrow> int \<Rightarrow> 'v cache \<Rightarrow> 'v cache" where
  "setCache now key data ttl c =
     c(key \<mapsto> \<lparr> ce_data = data, ce_timestamp = now, ce_ttl = ttl \<rparr>)"

definition getCache :: "int \<Rightarrow> string \<Rightarrow> int \<Rightarrow> 'v cache \<Rightarrow> 'v option \<times> 'v cache" where
  "getCache now key ttl c =
     (let entry = c key in
      if isValidCacheEntry now entry ttl then (map_option ce_data entry, c)
      else (None, c(key := None)))"

subsection \<open>Cache keys\<close>






section \<open>API facade\<close>

text \<open>
  The response envelope \<open>{status, data, message}\<close>; a missing field is \<open>None\<close>. A
  successful HTTP response carries the envelope as its body (\<open>None\<close> for a null body, on
  which reading \<open>status\<close> is a TypeError).
\<close>

record 'd envelope =
  env_status :: "string option"
  env_data :: "'d option"
  env_message :: "string option"

record 'd response =
  rsp_status :: nat
  rsp_data :: "'d envelope option"

text \<open>
  The state the facade works on: the module's cache and the outside world, whose clock
  \<open>Date.now()\<close> reads. \<open>apiClient.get\<close> is a parameter \<open>get\<close>: given a URL and
  parameters it is a request function.
\<close>

record ('d, 'w) api_state =
  cache :: "'d envelope cache"
  world :: 'w


type_synonym ('d, 'w) api_result =
  "(thrown + 'd envelope option) \<times> ('d, 'w) api_state"

text \<open>
  The part every cached read shares after its cache miss: the request goes through
  \<open>retryRequest\<close> with the default number of attempts, and the body is stored when
  \<open>useCache\<close> holds and its status is \<open>success\<close>.
\<close>

definition is_success :: "'d envelope \<Rightarrow> bool" where
  "is_success result = (env_status result = Some ''success'')"

definition request_and_store ::
  "('w \<Rightarrow> int) \<Rightarrow> ('w \<Rightarrow> (thrown + 'd response) \<times> 'w) \<Rightarrow> bool \<Rightarrow> string \<Rightarrow> int
     \<Rightarrow> 'd envelope cache \<Rightarrow> 'w \<Rightarrow> ('d, 'w) api_result" where
  "request_and_store now requestFn useCache cacheKey ttl c w =
     (let out = retryRequest requestFn RETRY_ATTEMPTS w; w' = ro_world out in
      case ro_result out of
        Inl error \<Rightarrow> (Inl error, \<lparr> cache = c, world = w' \<rparr>)
      | Inr response \<Rightarrow>
          (case rsp_data response of
             None \<Rightarrow>
               if useCache then (Inl (JsError ''TypeError''), \<lparr> cache = c, world = w' \<rparr>)
               else (Inr None, \<lparr> cache = c, world = w' \<rparr>)
           | Some result \<Rightarrow>
               if useCache \<and> is_success result
               then (Inr (Some result),
                     \<lparr> cache = setCache (now w') cacheKey result ttl c, world = w' \<rparr>)
               else (Inr (Some result), \<lparr> cache = c, world = w' \<rparr>)))"

text \<open>
  The template of a cached read: on \<open>useCache\<close> look the key up (a stored envelope is
  an object, so a hit is truthy), otherwise or on a miss make the request.
\<close>

definition cached_read ::
  "('w \<Rightarrow> int) \<Rightarrow> ('w \<Rightarrow> (thrown + 'd response) \<times> 'w) \<Rightarrow> bool \<Rightarrow> string \<Rightarrow> int
     \<Rightarrow> ('d, 'w) api_state \<Rightarrow> ('d, 'w) api_result" where
  "cached_read now requestFn useCache cacheKey ttl s =
     (if useCache then
        (case getCache (now (world s)) cacheKey ttl (cache s) of
           (Some cached, c') \<Rightarrow> (Inr (Some cached), \<lparr> cache = c', world = world s \<rparr>)
         | (None, c') \<Rightarrow> request_and_store now requestFn useCache cacheKey ttl c' (world s))
      else request_and_store now requestFn useCache cacheKey ttl (cache s) (world s))"












section \<open>Recent-search store\<close>

text \<open>
  \<open>localStorage\<close> maps keys to strings. A stored string is represented by what
  \<open>JSON.parse\<close> makes of it: \<open>Unparsable s\<close> is the text \<open>s\<close>, on which the parse throws
  (the empty string is one such text), and \<open>Json v\<close> is a text that parses to the value
  \<open>v\<close>; \<open>JSON.stringify v\<close> writes \<open>Json v\<close>. The store's own operations are taken to
  succeed.
\<close>

datatype json =
    JNull | JBool bool | JNum int | JStr string
  | JArr "json list" | JObj "(string \<times> json) list"

datatype stored = Unparsable string | Json json

type_synonym local_storage = "string \<rightharpoonup> stored"

definition RECENT_SEARCHES :: string where
  "RECENT_SEARCHES = ''company_lookup_recent_searches''"

text \<open>
  \<open>stored ? JSON.parse(stored) : []\<close> inside \<open>try\<close>: a missing key gives \<open>null\<close> and the
  empty string is falsy; a parse that throws is caught and gives the empty array.
\<close>

definition getRecentSearches :: "local_storage \<Rightarrow> json" where
  "getRecentSearches st =
     (case st RECENT_SEARCHES of
        None \<Rightarrow> JArr []
      | Some (Unparsable s) \<Rightarrow> if s = [] then JArr [] else JArr []
      | Some (Json v) \<Rightarrow> v)"

text \<open>
  \<open>recent.filter\<close> exists only on an array; on any other value the call is a TypeError,
  which the \<open>catch\<close> swallows, and nothing is stored.
\<close>

definition saveRecentSearch :: "string \<Rightarrow> local_storage \<Rightarrow> local_storage" where
  "saveRecentSearch query st =
     (case getRecentSearches st of
        JArr recent \<Rightarrow>
          (let updated = take 10 (JStr query # filter (\<lambda>q. q \<noteq> JStr query) recent)
           in st(RECENT_SEARCHES \<mapsto> Json (JArr updated)))
      | _ \<Rightarrow> st)"

definition clearRecentSearches :: "local_storage \<Rightarrow> local_storage" where
  "clearRecentSearches st = st(RECENT_SEARCHES := None)"

text \<open>\<open>Array.isArray\<close> on a parsed value.\<close>

fun is_array :: "json \<Rightarrow> bool" where
  "is_array (JArr xs) = True"
| "is_array v = False"

text \<open>A sequence of \<open>saveRecentSearch\<close> calls, first query first.\<close>

fun save_all :: "string list \<Rightarrow> local_storage \<Rightarrow> local_storage" where
  "save_all [] st = st"
| "save_all (q # qs) st = save_all qs (saveRecentSearch q st)"

text \<open>
  The list that saving the queries \<open>qs\<close> one after another leaves on top of a stored list
  \<open>xs\<close>: the queries of \<open>qs\<close>, latest first and each once, then what is left of \<open>xs\<close>,
  cut to ten entries.
\<close>

definition recent_after :: "string list \<Rightarrow> string list \<Rightarrow> string list" where
  "recent_after qs xs = take 10 (rev (remdups qs) @ filter (\<lambda>x. x \<notin> set qs) xs)"

section \<open>Search orchestrator: useCompanySearch\<close>

text \<open>
  The hook's state, and the store it writes recent searches to. An asynchronous
  \<open>performSearch\<close> runs in two turns of the event loop: \<open>performSearch_begin\<close> up to the
  \<open>await\<close> (it says whether a search was issued), and \<open>performSearch_settle\<close> from the
  moment \<open>searchCompanies\<close> settles with a response or a thrown value.
\<close>

record 'r search_data =
  sd_results :: "'r list option"

record 'r search_state =
  ss_query :: string
  ss_results :: "'r list"
  ss_suggestions :: "string list"
  ss_loading :: bool
  ss_error :: "string option"
  ss_hasSearched :: bool

record 'r hook =
  hk_state :: "'r search_state"
  hk_storage :: local_storage

definition initial_state :: "'r search_state" where
  "initial_state =
     \<lparr> ss_query = [], ss_results = [], ss_suggestions = [], ss_loading = False,
       ss_error = None, ss_hasSearched = False \<rparr>"

definition performSearch_begin :: "nat \<Rightarrow> string \<Rightarrow> 'r search_state \<Rightarrow> bool \<times> 'r search_state" where
  "performSearch_begin minQueryLength searchQuery s =
     (if searchQuery = [] \<or> length searchQuery < minQueryLength
      then (False, s\<lparr> ss_results := [], ss_error := None, ss_hasSearched := False \<rparr>)
      else (True, s\<lparr> ss_loading := True, ss_error := None \<rparr>))"

text \<open>The message of a thrown value, as \<open>err.message\<close> reads it.\<close>

definition thrown_message :: "thrown \<Rightarrow> string option option" where
  "thrown_message err =
     (case err of
        Undefined \<Rightarrow> None
      | JsError m \<Rightarrow> Some (Some m)
      | Classified e \<Rightarrow> Some (Some (err_message e)))"

text \<open>\<open>response.data?.results || []\<close>.\<close>

definition envelope_results :: "'r search_data envelope \<Rightarrow> 'r list" where
  "envelope_results response =
     list_or (case env_data response of None \<Rightarrow> None | Some d \<Rightarrow> sd_results d) []"

definition performSearch_settle ::
  "string \<Rightarrow> thrown + 'r search_data envelope option \<Rightarrow> 'r hook \<Rightarrow> 'r hook" where
  "performSearch_settle searchQuery outcome h =
     (let s = hk_state h;
          failed = (\<lambda>msg. h\<lparr> hk_state := s\<lparr> ss_error := Some msg, ss_results := [],
                                     ss_hasSearched := True, ss_loading := False \<rparr> \<rparr>)
      in case outcome of
           Inl err \<Rightarrow>
             (case thrown_message err of
                None \<Rightarrow> h\<lparr> hk_state := s\<lparr> ss_loading := False \<rparr> \<rparr>
              | Some m \<Rightarrow> failed (str_or m ''Search failed. Please try again.''))
         | Inr None \<Rightarrow> failed ''TypeError''
         | Inr (Some response) \<Rightarrow>
             if is_success response then
               (let searchResults = envelope_results response
                in \<lparr> hk_state = s\<lparr> ss_results := searchResults, ss_hasSearched := True,
                                  ss_loading := False \<rparr>,
                     hk_storage = (if length searchResults > 0
                                   then saveRecentSearch searchQuery (hk_storage h)
                                   else hk_storage h) \<rparr>)
             else failed (str_or (env_message response) ''Search failed''))"

text \<open>The effect that searches when the debounced query changes.\<close>

definition autoSearch_effect ::
  "bool \<Rightarrow> nat \<Rightarrow> string \<Rightarrow> 'r search_state \<Rightarrow> bool \<times> 'r search_state" where
  "autoSearch_effect autoSearch minQueryLength debouncedQuery s =
     (if autoSearch \<and> debouncedQuery \<noteq> []
      then performSearch_begin minQueryLength debouncedQuery s
      else (False, s))"

text \<open>
  The event loop runs the turns of the searches one after another, in the order in which
  they become ready: \<open>Begin q\<close> is the call \<open>performSearch(q)\<close> up to its \<open>await\<close>,
  \<open>Settle q outcome\<close> is the rest of that call once its request has settled.
\<close>

datatype 'r event =
    Begin string
  | Settle string "thrown + 'r search_data envelope option"

fun step :: "nat \<Rightarrow> 'r hook \<Rightarrow> 'r event \<Rightarrow> 'r hook" where
  "step minQueryLength h (Begin q) =
     h\<lparr> hk_state := snd (performSearch_begin minQueryLength q (hk_state h)) \<rparr>"
| "step minQueryLength h (Settle q outcome) = performSearch_settle q outcome h"

definition run :: "nat \<Rightarrow> 'r hook \<Rightarrow> 'r event list \<Rightarrow> 'r hook" where
  "run minQueryLength h evs = foldl (step minQueryLength) h evs"

section \<open>Query validation (validators)\<close>

text \<open>
  Strings are sequences of code units below 256. Of those, \<open>trim\<close> and the class
  \<open>\s\<close> take tab, line feed, vertical tab, form feed, carriage return, space and the
  no-break space as white space; \<open>\w\<close> is a letter, a digit or the underscore.
\<close>

definition is_space :: "char \<Rightarrow> bool" where
  "is_space c = (of_char c \<in> {9, 10, 11, 12, 13, 32, 160 :: nat})"

definition is_word :: "char \<Rightarrow> bool" where
  "is_word c =
     (let n = of_char c :: nat
      in (65 \<le> n \<and> n \<le> 90) \<or> (97 \<le> n \<and> n \<le> 122) \<or> (48 \<le> n \<and> n \<le> 57) \<or> n = 95)"

definition lower :: "char \<Rightarrow> char" where
  "lower c = (let n = of_char c :: nat in if 65 \<le> n \<and> n \<le> 90 then char_of (n + 32) else c)"

definition trim :: "string \<Rightarrow> string" where
  "trim s = rev (dropWhile is_space (rev (dropWhile is_space s)))"

text \<open>\<open>replace(/\s+/g, ' ')\<close>: every run of white space becomes one space.\<close>

function collapse_ws :: "string \<Rightarrow> string" where
  "collapse_ws [] = []"
| "collapse_ws (c # cs) =
     (if is_space c then CHR '' '' # collapse_ws (dropWhile is_space cs)
      else c # collapse_ws cs)"
  by pat_completeness auto
termination
  by (relation "measure length") (auto simp: less_Suc_eq_le length_dropWhile_le)

text \<open>The pattern \<open>pat\<close> (in lower case) at the start of \<open>s\<close>, ignoring case.\<close>

definition starts_ci :: "string \<Rightarrow> string \<Rightarrow> bool" where
  "starts_ci pat s = (length pat \<le> length s \<and> map lower (take (length pat) s) = pat)"

text \<open>\<open>/<tag[^>]*>/i\<close>: the opening of the tag somewhere, with a \<open>>\<close> anywhere after it.\<close>

fun has_tag :: "string \<Rightarrow> string \<Rightarrow> bool" where
  "has_tag pat [] = False"
| "has_tag pat (c # cs) =
     ((starts_ci pat (c # cs) \<and> CHR ''>'' \<in> set (drop (length pat) (c # cs)))
      \<or> has_tag pat cs)"

text \<open>\<open>/javascript:/i\<close>: the text somewhere.\<close>

fun contains_ci :: "string \<Rightarrow> string \<Rightarrow> bool" where
  "contains_ci pat [] = (pat = [])"
| "contains_ci pat (c # cs) = (starts_ci pat (c # cs) \<or> contains_ci pat cs)"

text \<open>
  \<open>/on\w+\s*=/i\<close>: after \<open>on\<close> the longest run of word characters, which must not be
  empty, then the longest run of white space, then \<open>=\<close>. The three classes are disjoint,
  so no shorter run can match where the longest does not.
\<close>

definition handler_here :: "string \<Rightarrow> bool" where
  "handler_here s =
     (starts_ci ''on'' s \<and>
      (let r = drop 2 s in
       takeWhile is_word r \<noteq> [] \<and>
       (case dropWhile is_space (dropWhile is_word r) of
          [] \<Rightarrow> False
        | c # cs \<Rightarrow> c = CHR ''='')))"

fun has_handler :: "string \<Rightarrow> bool" where
  "has_handler [] = False"
| "has_handler (c # cs) = (handler_here (c # cs) \<or> has_handler cs)"

definition suspicious :: "string \<Rightarrow> bool" where
  "suspicious s =
     (has_tag ''<script'' s \<or> contains_ci ''javascript:'' s
      \<or> has_handler s \<or> has_tag ''<iframe'' s)"

datatype 'a validation = Invalid string | Valid 'a

definition validateSearchQuery :: "string \<Rightarrow> string validation" where
  "validateSearchQuery query =
     (if query = [] then Invalid ''Search query is required''
      else
        (let queryStr = trim query in
         if length queryStr < MIN_QUERY_LENGTH then
           Invalid (''Query must be at least '' @ show_nat MIN_QUERY_LENGTH @ '' characters'')
         else if length queryStr > MAX_QUERY_LENGTH then
           Invalid (''Query cannot exceed '' @ show_nat MAX_QUERY_LENGTH @ '' characters'')
         else if suspicious queryStr then Invalid ''Query contains invalid characters''
         else Valid queryStr))"

definition sanitizeString :: "string \<Rightarrow> string" where
  "sanitizeString str =
     (if str = [] then []
      else collapse_ws
             (filter (\<lambda>c. c \<noteq> CHR 0x27 \<and> c \<noteq> CHR 0x22)
                (filter (\<lambda>c. c \<noteq> CHR ''<'' \<and> c \<noteq> CHR ''>'') (trim str))))"

definition validateAndSanitizeSearch :: "string \<Rightarrow> string validation" where
  "validateAndSanitizeSearch query =
     (case validateSearchQuery query of
        Invalid e \<Rightarrow> Invalid e
      | Valid v \<Rightarrow> Valid (sanitizeString v))"

text \<open>\<open>formatSearchQuery\<close> of the formatters: trim, then collapse white space.\<close>

definition formatSearchQuery :: "string \<Rightarrow> string" where
  "formatSearchQuery query = (if query = [] then [] else collapse_ws (trim query))"

section \<open>Inputs used in the examples\<close>

text \<open>
  A failure that carries an HTTP response with the given status, a body with one
  field-level error and a \<open>retry-after\<close> header; and a failure that carries the
  client's timeout code \<open>ECONNABORTED\<close> and no response.
\<close>

definition failure_with_status :: "nat \<Rightarrow> axios_error" where
  "failure_with_status n =
     \<lparr> ax_code = ''ERR_BAD_RESPONSE'', ax_message = ''Request failed'',
       ax_response = Some \<lparr> resp_status = n,
          resp_data = Some \<lparr> body_message = None, body_errors = Some [''q: too short''] \<rparr>,
          resp_headers = [''retry-after'' \<mapsto> ''30''] \<rparr> \<rparr>"

definition timeout_failure :: axios_error where
  "timeout_failure =
     \<lparr> ax_code = ''ECONNABORTED'', ax_message = ''timeout of 30000ms exceeded'',
       ax_response = None \<rparr>"

text \<open>
  A request function that fails with the given status on every call; its world is the
  number of calls made so far.
\<close>

definition always_failing :: "nat \<Rightarrow> nat \<Rightarrow> (thrown + unit response) \<times> nat" where
  "always_failing status calls =
     (Inl (Classified (transformError (failure_with_status status))), Suc calls)"

text \<open>A success envelope with the given search results.\<close>

definition found :: "'r list \<Rightarrow> thrown + 'r search_data envelope option" where
  "found xs = Inr (Some \<lparr> env_status = Some ''success'',
                          env_data = Some \<lparr> sd_results = Some xs \<rparr>,
                          env_message = None \<rparr>)"

definition fresh_hook :: "nat hook" where
  "fresh_hook = \<lparr> hk_state = initial_state, hk_storage = Map.empty \<rparr>"






definition twelve_queries :: "string list" where
  "twelve_queries = [''a'', ''b'', ''c'', ''d'', ''e'', ''f'', ''g'', ''h'', ''i'', ''j'', ''k'', ''a'']"

section \<open>Properties of the error classifier\<close>

lemmas status_defs = BAD_REQUEST_def HTTP_NOT_FOUND_def TOO_MANY_REQUESTS_def
  INTERNAL_SERVER_ERROR_def BAD_GATEWAY_def SERVICE_UNAVAILABLE_def GATEWAY_TIMEOUT_def

lemma transformError_no_response:
  "ax_response e = None \<Longrightarrow> err_type (transformError e) = NETWORK_ERROR"
  by (simp add: transformError_def)

lemma transformError_kind:
  "ax_response e = Some r \<Longrightarrow>
   err_type (transformError e) =
     (if resp_status r = 400 then VALIDATION_ERROR
      else if resp_status r = 404 then NOT_FOUND
      else if resp_status r = 429 then RATE_LIMIT
      else if resp_status r \<in> {500, 502, 503, 504} then SERVER_ERROR
      else API_ERROR)"
  by (simp add: transformError_def Let_def status_defs)

lemma transformError_errors:
  "ax_response e = Some r \<Longrightarrow> resp_status r = 400 \<Longrightarrow> resp_data r = Some b \<Longrightarrow>
   body_errors b = Some errs \<Longrightarrow> err_errors (transformError e) = Some errs"
  by (simp add: transformError_def Let_def status_defs body_errs_def list_or_def)

lemma transformError_retryAfter:
  "ax_response e = Some r \<Longrightarrow> resp_status r = 429 \<Longrightarrow>
   err_retryAfter (transformError e) = resp_headers r ''retry-after''"
  by (simp add: transformError_def Let_def status_defs)

lemma transformError_same_kind:
  assumes "map_option resp_status (ax_response e') = map_option resp_status (ax_response e)"
  shows "err_type (transformError e') = err_type (transformError e)"
proof (cases "ax_response e")
  case None
  with assms have "ax_response e' = None" by simp
  with None show ?thesis by (simp add: transformError_no_response)
next
  case (Some r)
  with assms obtain r' where r': "ax_response e' = Some r'" "resp_status r' = resp_status r"
    by (cases "ax_response e'") auto
  show ?thesis
    by (simp only: transformError_kind [OF Some] transformError_kind [OF r'(1)] r'(2))
qed

text \<open>
  Claim C6. The classifier is a total function that gives every failure one kind, by the
  first rule that applies: no response received is \<open>NETWORK_ERROR\<close>; status 400 is
  \<open>VALIDATION_ERROR\<close> and carries the field-level errors of the response body; 404 is
  \<open>NOT_FOUND\<close>; 429 is \<open>RATE_LIMIT\<close> and carries the \<open>retry-after\<close> header when there
  is one; 500, 502, 503 and 504 are \<open>SERVER_ERROR\<close>; every other status is \<open>API_ERROR\<close>.
  The kind depends on nothing but the presence of a response and its status, so
  classifying the same input again gives the same kind.
\<close>

theorem transformError_classification:
  "(ax_response e = None \<longrightarrow> err_type (transformError e) = NETWORK_ERROR) \<and>
   (\<forall>r. ax_response e = Some r \<longrightarrow>
      (resp_status r = 400 \<longrightarrow>
         err_type (transformError e) = VALIDATION_ERROR \<and>
         (\<forall>b errs. resp_data r = Some b \<and> body_errors b = Some errs \<longrightarrow>
            err_errors (transformError e) = Some errs)) \<and>
      (resp_status r = 404 \<longrightarrow> err_type (transformError e) = NOT_FOUND) \<and>
      (resp_status r = 429 \<longrightarrow>
         err_type (transformError e) = RATE_LIMIT \<and>
         err_retryAfter (transformError e) = resp_headers r ''retry-after'') \<and>
      (resp_status r \<in> {500, 502, 503, 504} \<longrightarrow> err_type (transformError e) = SERVER_ERROR) \<and>
      (resp_status r \<notin> {400, 404, 429, 500, 502, 503, 504} \<longrightarrow>
         err_type (transformError e) = API_ERROR)) \<and>
   (\<forall>e'. map_option resp_status (ax_response e') = map_option resp_status (ax_response e) \<longrightarrow>
      err_type (transformError e') = err_type (transformError e))"
proof (intro conjI allI impI)
  assume "ax_response e = None"
  then show "err_type (transformError e) = NETWORK_ERROR"
    by (rule transformError_no_response)
next
  fix r assume "ax_response e = Some r" "resp_status r = 400"
  then show "err_type (transformError e) = VALIDATION_ERROR"
    by (simp add: transformError_kind)
next
  fix r b errs
  assume "ax_response e = Some r" "resp_status r = 400"
    "resp_data r = Some b \<and> body_errors b = Some errs"
  then show "err_errors (transformError e) = Some errs"
    by (simp add: transformError_errors)
next
  fix r assume "ax_response e = Some r" "resp_status r = 404"
  then show "err_type (transformError e) = NOT_FOUND"
    by (simp add: transformError_kind)
next
  fix r assume "ax_response e = Some r" "resp_status r = 429"
  then show "err_type (transformError e) = RATE_LIMIT"
    by (simp add: transformError_kind)
next
  fix r assume "ax_response e = Some r" "resp_status r = 429"
  then show "err_retryAfter (transformError e) = resp_headers r ''retry-after''"
    by (rule transformError_retryAfter)
next
  fix r assume r: "ax_response e = Some r" and s: "resp_status r \<in> {500, 502, 503, 504}"
  from s have "resp_status r \<noteq> 400" "resp_status r \<noteq> 404" "resp_status r \<noteq> 429"
    by auto
  with s show "err_type (transformError e) = SERVER_ERROR"
    by (simp only: transformError_kind [OF r] if_False if_True)
next
  fix r assume r: "ax_response e = Some r"
    and s: "resp_status r \<notin> {400, 404, 429, 500, 502, 503, 504}"
  from s have "resp_status r \<noteq> 400" "resp_status r \<noteq> 404" "resp_status r \<noteq> 429"
    "resp_status r \<notin> {500, 502, 503, 504}"
    by auto
  then show "err_type (transformError e) = API_ERROR"
    by (simp only: transformError_kind [OF r] if_False)
next
  fix e' :: axios_error
  assume "map_option resp_status (ax_response e') = map_option resp_status (ax_response e)"
  then show "err_type (transformError e') = err_type (transformError e)"
    by (rule transformError_same_kind)
qed

lemma failure_with_status_response:
  "ax_response (failure_with_status n) = Some \<lparr> resp_status = n,
          resp_data = Some \<lparr> body_message = None, body_errors = Some [''q: too short''] \<rparr>,
          resp_headers = [''retry-after'' \<mapsto> ''30''] \<rparr>"
  by (simp add: failure_with_status_def)

theorem transformError_classification_witness:
  "err_type (transformError (failure_with_status 400)) = VALIDATION_ERROR \<and>
   err_errors (transformError (failure_with_status 400)) = Some [''q: too short''] \<and>
   err_type (transformError (failure_with_status 503)) = SERVER_ERROR \<and>
   err_retryAfter (transformError (failure_with_status 429)) = Some ''30'' \<and>
   err_type (transformError timeout_failure) = NETWORK_ERROR"
proof -
  let ?r = "\<lambda>n. \<lparr> resp_status = n,
          resp_data = Some \<lparr> body_message = None, body_errors = Some [''q: too short''] \<rparr>,
          resp_headers = [''retry-after'' \<mapsto> ''30''] \<rparr>"
  have v: "err_type (transformError (failure_with_status 400)) = VALIDATION_ERROR \<and>
           err_errors (transformError (failure_with_status 400)) = Some [''q: too short'']"
    using transformError_classification [of "failure_with_status 400"]
          failure_with_status_response [of 400]
    by simp
  have s: "err_type (transformError (failure_with_status 503)) = SERVER_ERROR"
    using transformError_classification [of "failure_with_status 503"]
          failure_with_status_response [of 503]
    by simp
  have l: "err_retryAfter (transformError (failure_with_status 429)) = Some ''30''"
    using transformError_classification [of "failure_with_status 429"]
          failure_with_status_response [of 429]
    by simp
  have t: "err_type (transformError timeout_failure) = NETWORK_ERROR"
    using transformError_classification [of timeout_failure]
    by (simp add: timeout_failure_def)
  show ?thesis using v s l t by simp
qed

text \<open>
  Claim C8 says that the failure of a call that ran into the timeout is given the
  timeout kind. A failure with the client's timeout code and no response is given the
  kind \<open>NETWORK_ERROR\<close>.
\<close>

theorem timeout_counterexample:
  "ax_code timeout_failure = ''ECONNABORTED'' \<and>
   err_type (transformError timeout_failure) = NETWORK_ERROR \<and>
   err_type (transformError timeout_failure) \<noteq> TIMEOUT_ERROR"
  by (simp add: transformError_def timeout_failure_def)

text \<open>
  Claim C8, amended. No input to the classifier is given the kind \<open>TIMEOUT_ERROR\<close>: the
  taxonomy has the kind, the classifier never produces it. The classifier reads the
  response only: the failure's own code and message, the timeout code among them, do
  not change the kind, and every failure without a response is a \<open>NETWORK_ERROR\<close>.
\<close>

theorem timeout_is_network_error:
  "err_type (transformError e) \<noteq> TIMEOUT_ERROR \<and>
   (\<forall>code msg. err_type (transformError (e\<lparr> ax_code := code, ax_message := msg \<rparr>)) =
                 err_type (transformError e)) \<and>
   (ax_response e = None \<longrightarrow> err_type (transformError e) = NETWORK_ERROR)"
proof -
  have never: "err_type (transformError e) \<noteq> TIMEOUT_ERROR"
  proof (cases "ax_response e")
    case None
    then show ?thesis by (simp add: transformError_no_response)
  next
    case (Some r)
    then show ?thesis by (simp add: transformError_kind)
  qed
  have same: "err_type (transformError (e\<lparr> ax_code := code, ax_message := msg \<rparr>)) =
              err_type (transformError e)" for code msg
    by (rule transformError_same_kind) simp
  have none: "ax_response e = None \<longrightarrow> err_type (transformError e) = NETWORK_ERROR"
    by (simp add: transformError_no_response)
  from never same none show ?thesis by blast
qed

theorem timeout_is_network_error_witness:
  "ax_response timeout_failure = None \<and> err_type (transformError timeout_failure) = NETWORK_ERROR"
proof -
  have n: "ax_response timeout_failure = None"
    by (simp add: timeout_failure_def)
  from timeout_is_network_error [of timeout_failure] n show ?thesis by blast
qed

section \<open>Properties of the retry policy\<close>

lemma retry_loop_exit:
  "\<not> attempt \<le> maxRetries \<Longrightarrow>
   retry_loop requestFn maxRetries attempt lastError log w =
     \<lparr> ro_result = Inl lastError, ro_effects = log, ro_world = w \<rparr>"
  by (simp add: retry_loop.simps)

lemma retry_loop_stop:
  "attempt \<le> maxRetries \<Longrightarrow> requestFn w = (Inl error, w') \<Longrightarrow> no_retry error = Some True \<Longrightarrow>
   retry_loop requestFn maxRetries attempt lastError log w =
     \<lparr> ro_result = Inl error, ro_effects = log @ [Request], ro_world = w' \<rparr>"
  by (simp add: retry_loop.simps)

lemma retry_loop_again:
  "attempt \<le> maxRetries \<Longrightarrow> requestFn w = (Inl error, w') \<Longrightarrow> no_retry error = Some False \<Longrightarrow>
   retry_loop requestFn maxRetries attempt lastError log w =
     retry_loop requestFn maxRetries (Suc attempt) error
       (if attempt < maxRetries then log @ [Request, Sleep (backoff_delay attempt)]
        else log @ [Request]) w'"
  by (subst retry_loop.simps) simp

lemma retry_loop_success:
  "attempt \<le> maxRetries \<Longrightarrow> requestFn w = (Inr response, w') \<Longrightarrow>
   retry_loop requestFn maxRetries attempt lastError log w =
     \<lparr> ro_result = Inr response, ro_effects = log @ [Request], ro_world = w' \<rparr>"
  by (simp add: retry_loop.simps)

lemma retry_three_failures:
  assumes "requestFn w0 = (Inl e1, w1)" "no_retry e1 = Some False"
      and "requestFn w1 = (Inl e2, w2)" "no_retry e2 = Some False"
      and "requestFn w2 = (Inl e3, w3)" "no_retry e3 \<noteq> None"
  shows "retryRequest requestFn 3 w0 =
     \<lparr> ro_result = Inl e3,
       ro_effects = [Request, Sleep 1000, Request, Sleep 2000, Request],
       ro_world = w3 \<rparr>"
proof -
  let ?n = "Suc (Suc (Suc 0))"
  have last: "retry_loop requestFn ?n ?n e2 [Request, Sleep 1000, Request, Sleep 2000] w2 =
     \<lparr> ro_result = Inl e3,
       ro_effects = [Request, Sleep 1000, Request, Sleep 2000, Request],
       ro_world = w3 \<rparr>"
  proof (cases "no_retry e3 = Some True")
    case True
    then show ?thesis using assms(5) by (simp add: retry_loop_stop)
  next
    case False
    with assms(6) have "no_retry e3 = Some False" by auto
    then show ?thesis using assms(5) by (simp add: retry_loop_again retry_loop_exit)
  qed
  have "retry_loop requestFn ?n (Suc 0) Undefined [] w0 =
        retry_loop requestFn ?n (Suc (Suc 0)) e1 [Request, Sleep 1000] w1"
    using assms(1,2) by (simp add: retry_loop_again backoff_delay_def RETRY_DELAY_def)
  also have "\<dots> = retry_loop requestFn ?n ?n e2 [Request, Sleep 1000, Request, Sleep 2000] w2"
    using assms(3,4) by (simp add: retry_loop_again backoff_delay_def RETRY_DELAY_def)
  finally show ?thesis using last by (simp add: retryRequest_def numeral_3_eq_3)
qed

lemma retry_second_stops:
  assumes "requestFn w0 = (Inl e1, w1)" "no_retry e1 = Some False"
      and "requestFn w1 = (Inl e2, w2)" "no_retry e2 = Some True"
  shows "retryRequest requestFn 3 w0 =
     \<lparr> ro_result = Inl e2, ro_effects = [Request, Sleep 1000, Request], ro_world = w2 \<rparr>"
proof -
  let ?n = "Suc (Suc (Suc 0))"
  have "retry_loop requestFn ?n (Suc 0) Undefined [] w0 =
        retry_loop requestFn ?n (Suc (Suc 0)) e1 [Request, Sleep 1000] w1"
    using assms(1,2) by (simp add: retry_loop_again backoff_delay_def RETRY_DELAY_def)
  also have "\<dots> =
     \<lparr> ro_result = Inl e2, ro_effects = [Request, Sleep 1000, Request], ro_world = w2 \<rparr>"
    using assms(3,4) by (simp add: retry_loop_stop)
  finally show ?thesis by (simp add: retryRequest_def numeral_3_eq_3)
qed

lemma no_retry_Classified: "no_retry (Classified e) = Some (terminal e)"
  by (simp add: no_retry_def terminal_def)

text \<open>
  Claim C1. Take a request function whose first three calls fail with classified errors
  \<open>e1\<close>, \<open>e2\<close>, \<open>e3\<close>, and \<open>retryRequest\<close> with its default of three attempts. If
  \<open>e1\<close> is a \<open>VALIDATION_ERROR\<close>, a \<open>NOT_FOUND\<close> or has the underlying status 400, it is
  rethrown after the first attempt: one request, no wait. If \<open>e1\<close> is not of that sort
  and \<open>e2\<close> is, \<open>e2\<close> is rethrown after the second attempt. If neither \<open>e1\<close> nor \<open>e2\<close> is
  of that sort, exactly two more attempts are made, the wait after failed attempt \<open>n\<close> is
  \<open>1000 * 2 ^ (n - 1)\<close> milliseconds, and the error of the last attempt is the one
  propagated.
\<close>

theorem retryRequest_policy:
  assumes "requestFn w0 = (Inl (Classified e1), w1)"
      and "requestFn w1 = (Inl (Classified e2), w2)"
      and "requestFn w2 = (Inl (Classified e3), w3)"
  shows "RETRY_ATTEMPTS = 3 \<and>
    (terminal e1 \<longrightarrow>
       retryRequest requestFn RETRY_ATTEMPTS w0 =
         \<lparr> ro_result = Inl (Classified e1), ro_effects = [Request], ro_world = w1 \<rparr>) \<and>
    (\<not> terminal e1 \<and> terminal e2 \<longrightarrow>
       retryRequest requestFn RETRY_ATTEMPTS w0 =
         \<lparr> ro_result = Inl (Classified e2),
           ro_effects = [Request, Sleep (1000 * 2 ^ (1 - 1)), Request], ro_world = w2 \<rparr>) \<and>
    (\<not> terminal e1 \<and> \<not> terminal e2 \<longrightarrow>
       retryRequest requestFn RETRY_ATTEMPTS w0 =
         \<lparr> ro_result = Inl (Classified e3),
           ro_effects = [Request, Sleep (1000 * 2 ^ (1 - 1)),
                         Request, Sleep (1000 * 2 ^ (2 - 1)), Request],
           ro_world = w3 \<rparr>)"
proof (intro conjI impI)
  show "RETRY_ATTEMPTS = 3" by (simp add: RETRY_ATTEMPTS_def)
next
  assume "terminal e1"
  then show "retryRequest requestFn RETRY_ATTEMPTS w0 =
         \<lparr> ro_result = Inl (Classified e1), ro_effects = [Request], ro_world = w1 \<rparr>"
    using assms(1)
    by (simp add: retryRequest_def RETRY_ATTEMPTS_def retry_loop_stop no_retry_Classified)
next
  assume h: "\<not> terminal e1 \<and> terminal e2"
  have n1: "no_retry (Classified e1) = Some False"
    using h by (simp add: no_retry_Classified)
  have n2: "no_retry (Classified e2) = Some True"
    using h by (simp add: no_retry_Classified)
  have "retryRequest requestFn 3 w0 =
     \<lparr> ro_result = Inl (Classified e2),
       ro_effects = [Request, Sleep 1000, Request], ro_world = w2 \<rparr>"
    by (rule retry_second_stops [OF assms(1) n1 assms(2) n2])
  then show "retryRequest requestFn RETRY_ATTEMPTS w0 =
         \<lparr> ro_result = Inl (Classified e2),
           ro_effects = [Request, Sleep (1000 * 2 ^ (1 - 1)), Request], ro_world = w2 \<rparr>"
    by (simp add: RETRY_ATTEMPTS_def)
next
  assume h: "\<not> terminal e1 \<and> \<not> terminal e2"
  have n1: "no_retry (Classified e1) = Some False"
    using h by (simp add: no_retry_Classified)
  have n2: "no_retry (Classified e2) = Some False"
    using h by (simp add: no_retry_Classified)
  have n3: "no_retry (Classified e3) \<noteq> None"
    by (simp add: no_retry_Classified)
  have "retryRequest requestFn 3 w0 =
     \<lparr> ro_result = Inl (Classified e3),
       ro_effects = [Request, Sleep 1000, Request, Sleep 2000, Request],
       ro_world = w3 \<rparr>"
    by (rule retry_three_failures [OF assms(1) n1 assms(2) n2 assms(3) n3])
  then show "retryRequest requestFn RETRY_ATTEMPTS w0 =
         \<lparr> ro_result = Inl (Classified e3),
           ro_effects = [Request, Sleep (1000 * 2 ^ (1 - 1)),
                         Request, Sleep (1000 * 2 ^ (2 - 1)), Request],
           ro_world = w3 \<rparr>"
    by (simp add: RETRY_ATTEMPTS_def)
qed

lemma always_failing_step:
  "always_failing status calls =
     (Inl (Classified (transformError (failure_with_status status))), Suc calls)"
  by (simp add: always_failing_def)

lemma terminal_400: "terminal (transformError (failure_with_status 400))"
  by (simp add: terminal_def transformError_def failure_with_status_def status_defs Let_def)

lemma not_terminal_503: "\<not> terminal (transformError (failure_with_status 503))"
  by (simp add: terminal_def transformError_def failure_with_status_def status_defs
        original_status_def Let_def)

lemma not_terminal_429: "\<not> terminal (transformError (failure_with_status 429))"
  by (simp add: terminal_def transformError_def failure_with_status_def status_defs
        original_status_def Let_def)

theorem retryRequest_policy_witness:
  "retryRequest (always_failing 400) RETRY_ATTEMPTS 0 =
     \<lparr> ro_result = Inl (Classified (transformError (failure_with_status 400))),
       ro_effects = [Request], ro_world = 1 \<rparr> \<and>
   retryRequest (always_failing 503) RETRY_ATTEMPTS 0 =
     \<lparr> ro_result = Inl (Classified (transformError (failure_with_status 503))),
       ro_effects = [Request, Sleep 1000, Request, Sleep 2000, Request], ro_world = 3 \<rparr>"
proof -
  let ?v = "transformError (failure_with_status 400)"
  let ?s = "transformError (failure_with_status 503)"
  note pv = retryRequest_policy [of "always_failing 400" 0 ?v "Suc 0" ?v "Suc (Suc 0)" ?v
      "Suc (Suc (Suc 0))", OF always_failing_step always_failing_step always_failing_step]
  note ps = retryRequest_policy [of "always_failing 503" 0 ?s "Suc 0" ?s "Suc (Suc 0)" ?s
      "Suc (Suc (Suc 0))", OF always_failing_step always_failing_step always_failing_step]
  have a: "retryRequest (always_failing 400) RETRY_ATTEMPTS 0 =
     \<lparr> ro_result = Inl (Classified ?v), ro_effects = [Request], ro_world = Suc 0 \<rparr>"
    using pv terminal_400 by blast
  have b: "retryRequest (always_failing 503) RETRY_ATTEMPTS 0 =
     \<lparr> ro_result = Inl (Classified ?s),
       ro_effects = [Request, Sleep (1000 * 2 ^ (1 - 1)),
                     Request, Sleep (1000 * 2 ^ (2 - 1)), Request],
       ro_world = Suc (Suc (Suc 0)) \<rparr>"
    using ps not_terminal_503 by blast
  show ?thesis
    by (simp only: a b) (simp add: numeral_3_eq_3)
qed

text \<open>
  Claim C2 says that a request failing with \<open>RATE_LIMIT\<close> is not issued again. A request
  function that always fails with status 429 is called three times, with both backoff
  waits in between.
\<close>

theorem rate_limit_counterexample:
  "err_type (transformError (failure_with_status 429)) = RATE_LIMIT \<and>
   ro_effects (retryRequest (always_failing 429) RETRY_ATTEMPTS 0) =
     [Request, Sleep 1000, Request, Sleep 2000, Request] \<and>
   ro_world (retryRequest (always_failing 429) RETRY_ATTEMPTS 0) = 3"
proof -
  let ?e = "Classified (transformError (failure_with_status 429))"
  have n: "no_retry ?e = Some False"
    by (simp add: no_retry_Classified not_terminal_429)
  have n3: "no_retry ?e \<noteq> None"
    by (simp add: n)
  have "retryRequest (always_failing 429) 3 0 =
     \<lparr> ro_result = Inl ?e,
       ro_effects = [Request, Sleep 1000, Request, Sleep 2000, Request],
       ro_world = Suc (Suc (Suc 0)) \<rparr>"
    by (rule retry_three_failures [of "always_failing 429" 0 ?e "Suc 0" ?e "Suc (Suc 0)" ?e
          "Suc (Suc (Suc 0))", OF always_failing_step n always_failing_step n
          always_failing_step n3])
  then have run: "retryRequest (always_failing 429) RETRY_ATTEMPTS 0 =
     \<lparr> ro_result = Inl ?e,
       ro_effects = [Request, Sleep 1000, Request, Sleep 2000, Request],
       ro_world = 3 \<rparr>"
    by (simp add: RETRY_ATTEMPTS_def numeral_3_eq_3)
  have kind: "err_type (transformError (failure_with_status 429)) = RATE_LIMIT"
    by (simp add: transformError_kind failure_with_status_def)
  show ?thesis
    by (simp add: run kind)
qed

text \<open>
  Claim C2, amended. \<open>RATE_LIMIT\<close> is not among the kinds that end the loop: a request
  that keeps failing with status 429 is tried three times, with waits of 1000 and 2000
  milliseconds, and the record of the last failure is propagated with the
  \<open>retry-after\<close> header of its response as \<open>retryAfter\<close>.
\<close>

theorem rate_limit_is_retried:
  assumes "requestFn w0 = (Inl (Classified (transformError a1)), w1)"
      and "requestFn w1 = (Inl (Classified (transformError a2)), w2)"
      and "requestFn w2 = (Inl (Classified (transformError a3)), w3)"
      and "\<forall>a \<in> {a1, a2, a3}. map_option resp_status (ax_response a) = Some 429"
  shows "retryRequest requestFn RETRY_ATTEMPTS w0 =
           \<lparr> ro_result = Inl (Classified (transformError a3)),
             ro_effects = [Request, Sleep 1000, Request, Sleep 2000, Request],
             ro_world = w3 \<rparr> \<and>
         err_type (transformError a3) = RATE_LIMIT \<and>
         (\<forall>r. ax_response a3 = Some r \<longrightarrow>
            err_retryAfter (transformError a3) = resp_headers r ''retry-after'')"
proof -
  have nt: "no_retry (Classified (transformError a)) = Some False"
    if "map_option resp_status (ax_response a) = Some 429" for a
  proof -
    from that obtain r where r: "ax_response a = Some r" "resp_status r = 429"
      by (cases "ax_response a") auto
    have "err_type (transformError a) = RATE_LIMIT"
      using r by (simp add: transformError_kind)
    moreover have "original_status (transformError a) = Some 429"
      using r by (simp add: original_status_def transformError_def Let_def status_defs)
    ultimately show ?thesis
      by (simp add: no_retry_Classified terminal_def BAD_REQUEST_def)
  qed
  have s1: "map_option resp_status (ax_response a1) = Some 429"
    and s2: "map_option resp_status (ax_response a2) = Some 429"
    and s3: "map_option resp_status (ax_response a3) = Some 429"
    using assms(4) by blast+
  have n3: "no_retry (Classified (transformError a3)) \<noteq> None"
    by (simp add: nt [OF s3])
  have run: "retryRequest requestFn 3 w0 =
     \<lparr> ro_result = Inl (Classified (transformError a3)),
       ro_effects = [Request, Sleep 1000, Request, Sleep 2000, Request],
       ro_world = w3 \<rparr>"
    by (rule retry_three_failures [OF assms(1) nt [OF s1] assms(2) nt [OF s2] assms(3) n3])
  from s3 obtain r3 where r3: "ax_response a3 = Some r3" "resp_status r3 = 429"
    by (cases "ax_response a3") auto
  have kind: "err_type (transformError a3) = RATE_LIMIT"
    using r3 by (simp add: transformError_kind)
  have hint: "err_retryAfter (transformError a3) = resp_headers r3 ''retry-after''"
    using r3 by (simp add: transformError_def Let_def status_defs)
  show ?thesis
    using run kind hint r3(1) by (simp add: RETRY_ATTEMPTS_def)
qed

theorem rate_limit_is_retried_witness:
  "retryRequest (always_failing 429) RETRY_ATTEMPTS 0 =
     \<lparr> ro_result = Inl (Classified (transformError (failure_with_status 429))),
       ro_effects = [Request, Sleep 1000, Request, Sleep 2000, Request], ro_world = 3 \<rparr> \<and>
   err_retryAfter (transformError (failure_with_status 429)) = Some ''30''"
proof -
  let ?a = "failure_with_status 429"
  have st: "\<forall>a \<in> {?a, ?a, ?a}. map_option resp_status (ax_response a) = Some 429"
    by (simp add: failure_with_status_def)
  have resp: "ax_response ?a = Some \<lparr> resp_status = 429,
          resp_data = Some \<lparr> body_message = None, body_errors = Some [''q: too short''] \<rparr>,
          resp_headers = [''retry-after'' \<mapsto> ''30''] \<rparr>"
    by (simp add: failure_with_status_def)
  note inst = rate_limit_is_retried [of "always_failing 429" 0 ?a "Suc 0" ?a "Suc (Suc 0)" ?a
      "Suc (Suc (Suc 0))", OF always_failing_step always_failing_step always_failing_step st]
  have run: "retryRequest (always_failing 429) RETRY_ATTEMPTS 0 =
     \<lparr> ro_result = Inl (Classified (transformError ?a)),
       ro_effects = [Request, Sleep 1000, Request, Sleep 2000, Request],
       ro_world = Suc (Suc (Suc 0)) \<rparr>"
    using inst by blast
  have hint: "err_retryAfter (transformError ?a) = Some ''30''"
    using inst resp by simp
  show ?thesis
    by (simp only: run hint) (simp add: numeral_3_eq_3)
qed

section \<open>Properties of the response cache\<close>

lemma getCache_fresh:
  "c k = Some e \<Longrightarrow> now - ce_timestamp e < ttl \<Longrightarrow> getCache now k ttl c = (Some (ce_data e), c)"
  by (simp add: getCache_def isValidCacheEntry_def)

lemma getCache_stale:
  "c k = Some e \<Longrightarrow> \<not> now - ce_timestamp e < ttl \<Longrightarrow> getCache now k ttl c = (None, c(k := None))"
  by (simp add: getCache_def isValidCacheEntry_def)

lemma getCache_absent:
  "c k = None \<Longrightarrow> getCache now k ttl c = (None, c(k := None))"
  by (simp add: getCache_def isValidCacheEntry_def)

lemma setCache_entry:
  "setCache t0 k v t c k = Some \<lparr> ce_data = v, ce_timestamp = t0, ce_ttl = t \<rparr>"
  by (simp add: setCache_def)

text \<open>
  Claim C4. Put \<open>v\<close> under the key \<open>k\<close> at time \<open>t0\<close> with the TTL \<open>t\<close>, then look \<open>k\<close>
  up at time \<open>now\<close> with that TTL, as every cached read of the facade does. While
  \<open>now - t0 < t\<close> the lookup returns \<open>v\<close> and leaves the cache as it is. Once \<open>t\<close> has
  elapsed it returns nothing and deletes the entry, so that any later lookup of \<open>k\<close>
  returns nothing as well.
\<close>

theorem getCache_after_setCache:
  "(now - t0 < t \<longrightarrow>
      getCache now k t (setCache t0 k v t c) = (Some v, setCache t0 k v t c)) \<and>
   (\<not> now - t0 < t \<longrightarrow>
      getCache now k t (setCache t0 k v t c) = (None, (setCache t0 k v t c)(k := None)) \<and>
      snd (getCache now k t (setCache t0 k v t c)) k = None \<and>
      (\<forall>now' t'. fst (getCache now' k t' (snd (getCache now k t (setCache t0 k v t c)))) = None))"
proof (intro conjI impI allI)
  assume "now - t0 < t"
  then show "getCache now k t (setCache t0 k v t c) = (Some v, setCache t0 k v t c)"
    by (simp add: getCache_fresh [OF setCache_entry])
next
  assume stale: "\<not> now - t0 < t"
  then show gone: "getCache now k t (setCache t0 k v t c) = (None, (setCache t0 k v t c)(k := None))"
    by (simp add: getCache_stale [OF setCache_entry])
  show "snd (getCache now k t (setCache t0 k v t c)) k = None"
    by (simp add: gone)
  fix now' t'
  show "fst (getCache now' k t' (snd (getCache now k t (setCache t0 k v t c)))) = None"
    by (simp add: gone getCache_absent)
qed

theorem getCache_after_setCache_witness:
  "getCache 60999 ''search:tesla?q=tesla'' 60000
     (setCache 1000 ''search:tesla?q=tesla'' (7::nat) 60000 Map.empty) =
     (Some 7, setCache 1000 ''search:tesla?q=tesla'' 7 60000 Map.empty) \<and>
   fst (getCache 61000 ''search:tesla?q=tesla'' 60000
     (setCache 1000 ''search:tesla?q=tesla'' (7::nat) 60000 Map.empty)) = None \<and>
   snd (getCache 61000 ''search:tesla?q=tesla'' 60000
     (setCache 1000 ''search:tesla?q=tesla'' (7::nat) 60000 Map.empty)) ''search:tesla?q=tesla'' = None"
proof -
  let ?k = "''search:tesla?q=tesla''"
  have a: "getCache 60999 ?k 60000 (setCache 1000 ?k (7::nat) 60000 Map.empty) =
     (Some 7, setCache 1000 ?k 7 60000 Map.empty)"
    using getCache_after_setCache [of 60999 1000 60000 ?k "7::nat" Map.empty] by simp
  have b: "getCache 61000 ?k 60000 (setCache 1000 ?k (7::nat) 60000 Map.empty) =
     (None, (setCache 1000 ?k 7 60000 Map.empty)(?k := None))"
    using getCache_after_setCache [of 61000 1000 60000 ?k "7::nat" Map.empty] by simp
  show ?thesis by (simp only: a b fst_conv snd_conv fun_upd_same simp_thms)
qed

text \<open>
  The TTL that decides is the one passed to the lookup; the one stored with the entry is
  not read. The facade passes the same TTL to both.
\<close>

lemma getCache_ignores_stored_ttl:
  "getCache now k t' (setCache t0 k v t c) =
     (if now - t0 < t' then (Some v, setCache t0 k v t c)
      else (None, (setCache t0 k v t c)(k := None)))"
  by (simp add: getCache_def isValidCacheEntry_def setCache_def)

lemma cached_read_hit:
  assumes "now (world s) - t0 < ttl"
  shows "cached_read now requestFn True key ttl (s\<lparr> cache := setCache t0 key v ttl (cache s) \<rparr>) =
           (Inr (Some v), s\<lparr> cache := setCache t0 key v ttl (cache s) \<rparr>)"
  using assms by (simp add: cached_read_def getCache_fresh [OF setCache_entry])

section \<open>Properties of the API facade\<close>











section \<open>Properties of the recent-search store\<close>

lemma filter_JStr: "filter (\<lambda>v. v \<noteq> JStr q) (map JStr xs) = map JStr (filter (\<lambda>x. x \<noteq> q) xs)"
  by (induction xs) auto

lemma saveRecentSearch_reads:
  "getRecentSearches st = JArr (map JStr xs) \<Longrightarrow>
   getRecentSearches (saveRecentSearch q st) =
     JArr (map JStr (take 10 (q # filter (\<lambda>x. x \<noteq> q) xs)))"
  by (simp add: saveRecentSearch_def getRecentSearches_def filter_JStr take_map)

lemma save_all_snoc: "save_all (qs @ [q]) st = saveRecentSearch q (save_all qs st)"
  by (induction qs arbitrary: st) simp_all

lemma take_filter_take:
  "distinct xs \<Longrightarrow>
   take n (filter (\<lambda>x. x \<noteq> q) (take (Suc n) xs)) = take n (filter (\<lambda>x. x \<noteq> q) xs)"
proof (induction xs arbitrary: n)
  case Nil
  then show ?case by simp
next
  case (Cons x xs)
  show ?case
  proof (cases n)
    case 0
    then show ?thesis by simp
  next
    case (Suc m)
    show ?thesis
    proof (cases "x = q")
      case True
      with Cons.prems have "q \<notin> set xs" by simp
      then have all: "filter (\<lambda>y. y \<noteq> q) xs = xs"
        by (auto simp: filter_id_conv)
      have "q \<notin> set (take (Suc m) xs)"
        using \<open>q \<notin> set xs\<close> by (meson in_set_takeD)
      then have "filter (\<lambda>y. y \<noteq> q) (take (Suc m) xs) = take (Suc m) xs"
        by (auto simp: filter_id_conv)
      with True Suc all show ?thesis by simp
    next
      case False
      from Cons.prems have "distinct xs" by simp
      from Cons.IH [OF this, of m] False Suc show ?thesis by simp
    qed
  qed
qed

lemma rev_remdups_snoc:
  "rev (remdups (qs @ [q])) = q # filter (\<lambda>x. x \<noteq> q) (rev (remdups qs))"
proof -
  have "remdups (qs @ [q]) = remdups (filter (\<lambda>x. x \<noteq> q) qs) @ [q]"
    by (induction qs) auto
  then show ?thesis
    by (simp add: remdups_filter rev_filter)
qed

lemma distinct_merged:
  "distinct xs \<Longrightarrow> distinct (rev (remdups qs) @ filter (\<lambda>x. x \<notin> set qs) xs)"
  by auto

lemma push_recent:
  assumes "distinct xs"
  shows "take 10 (q # filter (\<lambda>x. x \<noteq> q) (recent_after qs xs)) = recent_after (qs @ [q]) xs"
proof -
  let ?m = "rev (remdups qs) @ filter (\<lambda>x. x \<notin> set qs) xs"
  have d: "distinct ?m" by (rule distinct_merged [OF assms])
  have "take 9 (filter (\<lambda>x. x \<noteq> q) (take (Suc 9) ?m)) = take 9 (filter (\<lambda>x. x \<noteq> q) ?m)"
    by (rule take_filter_take [OF d])
  then have t: "take 9 (filter (\<lambda>x. x \<noteq> q) (take 10 ?m)) = take 9 (filter (\<lambda>x. x \<noteq> q) ?m)"
    by simp
  have f: "filter (\<lambda>x. x \<noteq> q) (filter (\<lambda>x. x \<notin> set qs) xs) =
           filter (\<lambda>x. x \<notin> set (qs @ [q])) xs"
    by (induction xs) auto
  have fm: "filter (\<lambda>x. x \<noteq> q) ?m =
            filter (\<lambda>x. x \<noteq> q) (rev (remdups qs)) @ filter (\<lambda>x. x \<notin> set (qs @ [q])) xs"
    by (simp only: filter_append f)
  have "take 10 (q # filter (\<lambda>x. x \<noteq> q) (take 10 ?m)) = q # take 9 (filter (\<lambda>x. x \<noteq> q) ?m)"
    using t by (simp add: take_Cons')
  also have "\<dots> = take 10 (q # filter (\<lambda>x. x \<noteq> q) ?m)"
    by (simp add: take_Cons')
  also have "\<dots> = take 10 ((q # filter (\<lambda>x. x \<noteq> q) (rev (remdups qs)))
                          @ filter (\<lambda>x. x \<notin> set (qs @ [q])) xs)"
    by (simp only: fm append_Cons)
  also have "\<dots> = recent_after (qs @ [q]) xs"
    by (simp only: recent_after_def rev_remdups_snoc)
  finally show ?thesis by (simp only: recent_after_def)
qed

lemma save_all_reads:
  assumes "getRecentSearches st = JArr (map JStr xs)" and "distinct xs" and "qs \<noteq> []"
  shows "getRecentSearches (save_all qs st) = JArr (map JStr (recent_after qs xs))"
  using assms(3)
proof (induction qs rule: rev_induct)
  case Nil
  then show ?case by simp
next
  case (snoc q qs)
  show ?case
  proof (cases "qs = []")
    case True
    have "take 10 (q # filter (\<lambda>x. x \<noteq> q) xs) = recent_after [q] xs"
    proof -
      have "filter (\<lambda>x. x \<noteq> q) xs = filter (\<lambda>x. x \<notin> set [q]) xs"
        by (induction xs) auto
      then show ?thesis by (simp add: recent_after_def)
    qed
    then have "getRecentSearches (saveRecentSearch q st) = JArr (map JStr (recent_after [q] xs))"
      by (simp only: saveRecentSearch_reads [OF assms(1)])
    with True show ?thesis
      by simp
  next
    case False
    with snoc.IH have prev: "getRecentSearches (save_all qs st) = JArr (map JStr (recent_after qs xs))"
      by simp
    show ?thesis
      by (simp only: save_all_snoc saveRecentSearch_reads [OF prev] push_recent [OF assms(2)])
  qed
qed

lemma hd_recent_after: "qs \<noteq> [] \<Longrightarrow> hd (recent_after qs xs) = last qs"
proof -
  assume ne: "qs \<noteq> []"
  then have r: "rev (remdups qs) \<noteq> []" by simp
  have "last (remdups qs) = last qs" using ne by (induction qs) auto
  then have "hd (rev (remdups qs)) = last qs" using r by (simp add: hd_rev)
  with r show ?thesis
    by (simp add: recent_after_def hd_take hd_append)
qed

lemma length_recent_after:
  "10 \<le> card (set qs) \<Longrightarrow> recent_after qs xs = take 10 (rev (remdups qs))"
  by (simp add: recent_after_def length_remdups_card_conv)

text \<open>
  Claim C7. Let the store read as a list \<open>xs\<close> of distinct strings (the empty list when
  the key is absent), and save the queries \<open>qs\<close>, at least one, in order. The stored list
  is then \<open>recent_after qs xs\<close>: its entries are distinct, it has at most ten of them, and
  its first entry is the query saved last. With more than ten distinct queries saved it
  has exactly ten entries, the ten latest distinct queries, latest first. Saving one
  more query \<open>q\<close> puts \<open>q\<close> in front and removes its earlier occurrence.
\<close>

theorem recent_searches_bounded_distinct:
  assumes "getRecentSearches st = JArr (map JStr xs)" and "distinct xs" and "qs \<noteq> []"
  shows "getRecentSearches (save_all qs st) = JArr (map JStr (recent_after qs xs)) \<and>
         distinct (recent_after qs xs) \<and>
         length (recent_after qs xs) \<le> 10 \<and>
         hd (recent_after qs xs) = last qs \<and>
         (10 < card (set qs) \<longrightarrow>
            length (recent_after qs xs) = 10 \<and>
            recent_after qs xs = take 10 (rev (remdups qs))) \<and>
         (\<forall>q. getRecentSearches (saveRecentSearch q (save_all qs st)) =
               JArr (map JStr (take 10 (q # filter (\<lambda>x. x \<noteq> q) (recent_after qs xs)))))"
proof -
  have g: "getRecentSearches (save_all qs st) = JArr (map JStr (recent_after qs xs))"
    by (rule save_all_reads [OF assms])
  have d: "distinct (recent_after qs xs)"
    unfolding recent_after_def by (rule distinct_take [OF distinct_merged [OF assms(2)]])
  have l: "length (recent_after qs xs) \<le> 10"
    by (simp add: recent_after_def)
  have h: "hd (recent_after qs xs) = last qs"
    by (rule hd_recent_after [OF assms(3)])
  have c: "10 < card (set qs) \<longrightarrow>
            length (recent_after qs xs) = 10 \<and>
            recent_after qs xs = take 10 (rev (remdups qs))"
    by (simp add: length_recent_after length_remdups_card_conv)
  have n: "\<forall>q. getRecentSearches (saveRecentSearch q (save_all qs st)) =
               JArr (map JStr (take 10 (q # filter (\<lambda>x. x \<noteq> q) (recent_after qs xs))))"
    by (simp add: saveRecentSearch_reads [OF g])
  from g d l h c n show ?thesis by blast
qed

theorem recent_searches_bounded_distinct_witness:
  "getRecentSearches (save_all twelve_queries Map.empty) =
     JArr (map JStr [''a'', ''k'', ''j'', ''i'', ''h'', ''g'', ''f'', ''e'', ''d'', ''c''])"
proof -
  have e: "getRecentSearches Map.empty = JArr (map JStr [])"
    by (simp add: getRecentSearches_def)
  have r: "recent_after twelve_queries [] =
           [''a'', ''k'', ''j'', ''i'', ''h'', ''g'', ''f'', ''e'', ''d'', ''c'']"
    by (simp add: recent_after_def twelve_queries_def)
  have ne: "twelve_queries \<noteq> []" by (simp add: twelve_queries_def)
  from recent_searches_bounded_distinct [OF e _ ne] r show ?thesis by simp
qed

text \<open>
  Claim C10 says that \<open>getRecentSearches\<close> returns an array in every state of the store.
  When the stored text is the JSON number \<open>5\<close>, it returns that number.
\<close>

theorem getRecentSearches_non_array_counterexample:
  "getRecentSearches [RECENT_SEARCHES \<mapsto> Json (JNum 5)] = JNum 5 \<and>
   \<not> is_array (getRecentSearches [RECENT_SEARCHES \<mapsto> Json (JNum 5)])"
  by (simp add: getRecentSearches_def)

text \<open>
  Claim C10, amended. \<open>getRecentSearches\<close> returns a value in every state of the store:
  the empty array when the key is absent or the stored text does not parse, and
  otherwise the value that the stored text parses to. That value is an array unless the
  stored text is valid JSON for something else.
\<close>

theorem getRecentSearches_total:
  "(st RECENT_SEARCHES = None \<longrightarrow> getRecentSearches st = JArr []) \<and>
   (\<forall>s. st RECENT_SEARCHES = Some (Unparsable s) \<longrightarrow> getRecentSearches st = JArr []) \<and>
   (\<forall>v. st RECENT_SEARCHES = Some (Json v) \<longrightarrow> getRecentSearches st = v) \<and>
   (is_array (getRecentSearches st) \<or> (\<exists>v. st RECENT_SEARCHES = Some (Json v) \<and> \<not> is_array v))"
proof -
  have a: "st RECENT_SEARCHES = None \<longrightarrow> getRecentSearches st = JArr []"
    by (simp add: getRecentSearches_def)
  have b: "\<forall>s. st RECENT_SEARCHES = Some (Unparsable s) \<longrightarrow> getRecentSearches st = JArr []"
    by (simp add: getRecentSearches_def)
  have c: "\<forall>v. st RECENT_SEARCHES = Some (Json v) \<longrightarrow> getRecentSearches st = v"
    by (simp add: getRecentSearches_def)
  have d: "is_array (getRecentSearches st) \<or>
           (\<exists>v. st RECENT_SEARCHES = Some (Json v) \<and> \<not> is_array v)"
  proof (cases "st RECENT_SEARCHES")
    case None
    then show ?thesis by (simp add: getRecentSearches_def)
  next
    case (Some x)
    then show ?thesis by (cases x) (auto simp: getRecentSearches_def)
  qed
  from a b c d show ?thesis by blast
qed

theorem getRecentSearches_total_witness:
  "getRecentSearches Map.empty = JArr [] \<and>
   getRecentSearches [RECENT_SEARCHES \<mapsto> Unparsable ''[tesla''] = JArr [] \<and>
   getRecentSearches [RECENT_SEARCHES \<mapsto> Json (JArr [JStr ''tesla''])] = JArr [JStr ''tesla'']"
proof -
  have a: "getRecentSearches Map.empty = JArr []"
    using getRecentSearches_total [of Map.empty] by simp
  have b: "getRecentSearches [RECENT_SEARCHES \<mapsto> Unparsable ''[tesla''] = JArr []"
    using getRecentSearches_total [of "[RECENT_SEARCHES \<mapsto> Unparsable ''[tesla'']"] by simp
  have c: "getRecentSearches [RECENT_SEARCHES \<mapsto> Json (JArr [JStr ''tesla''])] = JArr [JStr ''tesla'']"
    using getRecentSearches_total [of "[RECENT_SEARCHES \<mapsto> Json (JArr [JStr ''tesla''])]"] by simp
  from a b c show ?thesis by simp
qed

section \<open>Properties of the search orchestrator\<close>

lemma settle_success:
  "is_success response \<Longrightarrow>
   ss_results (hk_state (performSearch_settle q (Inr (Some response)) h)) = envelope_results response"
  by (simp add: performSearch_settle_def Let_def)

text \<open>
  A search that comes back with a success envelope and at least one result saves its
  query; any other outcome leaves the store as it is.
\<close>

lemma settle_saves_recent:
  "hk_storage (performSearch_settle q outcome h) =
     (case outcome of
        Inr (Some response) \<Rightarrow>
          if is_success response \<and> envelope_results response \<noteq> []
          then saveRecentSearch q (hk_storage h) else hk_storage h
      | _ \<Rightarrow> hk_storage h)"
  by (simp add: performSearch_settle_def Let_def split: sum.splits option.splits)

text \<open>
  Claim C3, amended. Two searches are issued, for \<open>qa\<close> and then for \<open>qb\<close>, and both
  requests come back with success envelopes. The results shown at the end are those of
  the response that settles last: when the response for \<open>qa\<close> settles after the one for
  \<open>qb\<close>, they are the results for \<open>qa\<close>, the earlier search; when it settles before,
  they are the results for \<open>qb\<close>.
\<close>

theorem last_settled_search_wins:
  assumes "fst (performSearch_begin minLen qa (hk_state h))"
      and "fst (performSearch_begin minLen qb (hk_state (run minLen h [Begin qa])))"
      and "is_success ra" and "is_success rb"
  shows "ss_results (hk_state (run minLen h
           [Begin qa, Begin qb, Settle qb (Inr (Some rb)), Settle qa (Inr (Some ra))])) =
           envelope_results ra \<and>
         ss_results (hk_state (run minLen h
           [Begin qa, Begin qb, Settle qa (Inr (Some ra)), Settle qb (Inr (Some rb))])) =
           envelope_results rb"
  using assms(3,4) by (simp add: run_def settle_success)

text \<open>
  Claim C3 says that the later search wins even when the earlier one resolves later.
  Searches for \<open>te\<close> and then for \<open>tes\<close> are both issued; the response for \<open>tes\<close>, with
  the result 2, settles first, the response for \<open>te\<close>, with the result 1, after it. The
  results shown at the end are those for \<open>te\<close>.
\<close>

theorem stale_search_counterexample:
  "fst (performSearch_begin 2 ''te'' (hk_state fresh_hook)) \<and>
   fst (performSearch_begin 2 ''tes'' (hk_state (run 2 fresh_hook [Begin ''te'']))) \<and>
   ss_results (hk_state (run 2 fresh_hook
      [Begin ''te'', Begin ''tes'', Settle ''tes'' (found [2]), Settle ''te'' (found [1])])) = [1]"
  by (simp add: run_def found_def settle_success is_success_def envelope_results_def
        list_or_def performSearch_begin_def)

theorem last_settled_search_wins_witness:
  "ss_results (hk_state (run 2 fresh_hook
      [Begin ''te'', Begin ''tes'', Settle ''tes'' (found [2]), Settle ''te'' (found [1])])) = [1] \<and>
   ss_results (hk_state (run 2 fresh_hook
      [Begin ''te'', Begin ''tes'', Settle ''te'' (found [1]), Settle ''tes'' (found [2])])) = [2]"
proof -
  let ?r = "\<lambda>xs::nat list. \<lparr> env_status = Some ''success'',
                          env_data = Some \<lparr> sd_results = Some xs \<rparr>,
                          env_message = None \<rparr>"
  have s: "is_success (?r xs)" for xs by (simp add: is_success_def)
  have e: "envelope_results (?r xs) = xs" for xs
    by (simp add: envelope_results_def list_or_def)
  have ia: "fst (performSearch_begin 2 ''te'' (hk_state fresh_hook))"
    by (simp add: performSearch_begin_def)
  have ib: "fst (performSearch_begin 2 ''tes'' (hk_state (run 2 fresh_hook [Begin ''te''])))"
    by (simp add: performSearch_begin_def)
  note inst = last_settled_search_wins [where ra = "?r [1]" and rb = "?r [2]", OF ia ib s s]
  from inst show ?thesis by (simp only: found_def e)
qed

section \<open>Properties of the query validation\<close>

lemma trim_suffix:
  "dropWhile is_space query =
     trim query @ rev (takeWhile is_space (rev (dropWhile is_space query)))"
proof -
  let ?d = "dropWhile is_space query"
  have "?d = rev (takeWhile is_space (rev ?d) @ dropWhile is_space (rev ?d))"
    by (simp only: takeWhile_dropWhile_id rev_rev_ident)
  then show ?thesis
    by (simp only: rev_append trim_def)
qed

lemma trim_decomposes:
  "\<exists>pre post. query = pre @ trim query @ post \<and>
     (\<forall>c \<in> set pre. is_space c) \<and> (\<forall>c \<in> set post. is_space c)"
proof -
  let ?d = "dropWhile is_space query"
  let ?post = "rev (takeWhile is_space (rev ?d))"
  have "query = takeWhile is_space query @ ?d"
    by (simp only: takeWhile_dropWhile_id)
  also have "?d = trim query @ ?post"
    by (rule trim_suffix)
  finally have q: "query = takeWhile is_space query @ trim query @ ?post" .
  have c: "\<forall>c \<in> set (takeWhile is_space query). is_space c"
    by (auto dest: set_takeWhileD)
  have d: "\<forall>c \<in> set ?post. is_space c"
    by (auto dest: set_takeWhileD)
  from q c d show ?thesis by blast
qed

lemma trim_ends:
  assumes ne: "trim query \<noteq> []"
  shows "\<not> is_space (hd (trim query)) \<and> \<not> is_space (last (trim query))"
proof -
  let ?d = "dropWhile is_space query"
  let ?e = "dropWhile is_space (rev ?d)"
  from ne have e: "?e \<noteq> []" by (simp only: trim_def rev_is_Nil_conv not_False_eq_True)
  then have l: "\<not> is_space (hd ?e)" by (rule hd_dropWhile)
  have "last (trim query) = hd ?e" using e by (simp only: trim_def last_rev)
  with l have last: "\<not> is_space (last (trim query))" by simp
  have dne: "?d \<noteq> []"
  proof
    assume h: "?d = []"
    have "?e = []" by (simp only: h rev.simps dropWhile.simps)
    with e show False by (rule notE)
  qed
  then have h: "\<not> is_space (hd ?d)" by (rule hd_dropWhile)
  have "hd ?d = hd (trim query @ rev (takeWhile is_space (rev ?d)))"
    by (rule arg_cong [OF trim_suffix])
  also have "\<dots> = hd (trim query)"
    using ne by (rule hd_append2)
  finally have "hd ?d = hd (trim query)" .
  with h last show ?thesis by simp
qed

text \<open>
  Claim C9 says that the value of an accepted query is the input with its white space
  trimmed and collapsed. The query \<open>a  b\<close>, with two spaces inside, is accepted and
  returned with both spaces; trimming and collapsing it (\<open>formatSearchQuery\<close>) gives one.
\<close>

theorem validateSearchQuery_collapse_counterexample:
  "validateSearchQuery ''a  b'' = Valid ''a  b'' \<and> formatSearchQuery ''a  b'' = ''a b''"
  by code_simp

text \<open>
  Claim C9, amended. The value of every query that \<open>validateSearchQuery\<close> accepts is
  the input with its leading and trailing white space removed and nothing else
  changed: the input is white space, then the value, then white space; the value neither
  starts nor ends with white space; and it has between 2 and 100 characters.
\<close>

theorem validateSearchQuery_trims:
  assumes "validateSearchQuery query = Valid v"
  shows "v = trim query \<and>
         (\<exists>pre post. query = pre @ v @ post \<and>
            (\<forall>c \<in> set pre. is_space c) \<and> (\<forall>c \<in> set post. is_space c)) \<and>
         \<not> is_space (hd v) \<and> \<not> is_space (last v) \<and>
         MIN_QUERY_LENGTH \<le> length v \<and> length v \<le> MAX_QUERY_LENGTH"
proof -
  from assms have v: "v = trim query"
    by (auto simp: validateSearchQuery_def Let_def split: if_splits)
  from assms have len: "MIN_QUERY_LENGTH \<le> length v \<and> length v \<le> MAX_QUERY_LENGTH"
    by (auto simp: validateSearchQuery_def Let_def split: if_splits)
  then have "v \<noteq> []" by (auto simp: MIN_QUERY_LENGTH_def)
  with v trim_ends [of query] have ends: "\<not> is_space (hd v) \<and> \<not> is_space (last v)"
    by simp
  from trim_decomposes [of query] v
  have dec: "\<exists>pre post. query = pre @ v @ post \<and>
            (\<forall>c \<in> set pre. is_space c) \<and> (\<forall>c \<in> set post. is_space c)"
    by simp
  from v dec ends len show ?thesis by blast
qed

theorem validateSearchQuery_trims_witness:
  "validateSearchQuery ''  the  boring   co '' = Valid ''the  boring   co'' \<and>
   ''the  boring   co'' = trim ''  the  boring   co ''"
proof -
  have v: "validateSearchQuery ''  the  boring   co '' = Valid ''the  boring   co''"
    by code_simp
  from validateSearchQuery_trims [OF v] v show ?thesis by blast
qed

end
